theory Spec2Isabelle
  imports Main "HOL-Library.Word" "HOL-Library.Monad_Syntax"
begin

unbundle bit_operations_syntax

section \<open>The offset allocator of \<^verbatim>\<open>src/common/offset-allocator.cpp\<close>\<close>

text \<open>
  The allocator hands out sub-ranges of \<open>[0, size)\<close>. All of its integers are \<open>uint32\<close>
  (\<open>uint8\<close> for the leaf bitmaps); they are modelled as words, so \<open>+\<close> and \<open>-\<close> wrap as
  in the source. An operation of the source whose behaviour is undefined (reading or writing
  outside an array, dereferencing the null arena, shifting by 32 or more, counting the zeros
  of 0) is the value \<open>None\<close> of the model.
\<close>

type_synonym uint8 = "8 word"
type_synonym uint32 = "32 word"

subsection \<open>Bit scans\<close>

text \<open>
  \<^verbatim>\<open>__builtin_clz\<close> and \<^verbatim>\<open>__builtin_ctz\<close>: the number of zero bits above the highest, and
  below the lowest, set bit. Their result on 0 is undefined in the source; callers that do
  not test their argument are guarded in the model.
\<close>

definition lzcnt_nonzero :: "uint32 \<Rightarrow> uint32" where
  "lzcnt_nonzero v = of_nat (length (takeWhile (\<lambda>i. \<not> bit v i) (rev [0..<32])))"

definition tzcnt_nonzero :: "uint32 \<Rightarrow> uint32" where
  "tzcnt_nonzero v = of_nat (length (takeWhile (\<lambda>i. \<not> bit v i) [0..<32]))"

subsection \<open>Size-class codec\<close>

definition SMALL_FLT_MANTISSA_BITS :: uint32 where
  "SMALL_FLT_MANTISSA_BITS = 3"

definition SMALL_FLT_MANTISSA_VALUE :: uint32 where
  "SMALL_FLT_MANTISSA_VALUE = push_bit (unat SMALL_FLT_MANTISSA_BITS) 1"

definition SMALL_FLT_MANTISSA_MASK :: uint32 where
  "SMALL_FLT_MANTISSA_MASK = SMALL_FLT_MANTISSA_VALUE - 1"

definition uintToSmallFloatRoundUp :: "uint32 \<Rightarrow> uint32" where
  "uintToSmallFloatRoundUp size' =
     (if size' < SMALL_FLT_MANTISSA_VALUE
      then push_bit (unat SMALL_FLT_MANTISSA_BITS) 0 + size'
      else
        let leadingZeros = lzcnt_nonzero size';
            highestSetBit = 31 - leadingZeros;
            mantissaStartBit = highestSetBit - SMALL_FLT_MANTISSA_BITS;
            exp = mantissaStartBit + 1;
            mantissa = drop_bit (unat mantissaStartBit) size' AND SMALL_FLT_MANTISSA_MASK;
            lowBitsMask = push_bit (unat mantissaStartBit) 1 - 1;
            mantissa = (if size' AND lowBitsMask \<noteq> 0 then mantissa + 1 else mantissa)
        in push_bit (unat SMALL_FLT_MANTISSA_BITS) exp + mantissa)"

definition uintToSmallFloatRoundDown :: "uint32 \<Rightarrow> uint32" where
  "uintToSmallFloatRoundDown size' =
     (if size' < SMALL_FLT_MANTISSA_VALUE
      then push_bit (unat SMALL_FLT_MANTISSA_BITS) 0 OR size'
      else
        let leadingZeros = lzcnt_nonzero size';
            highestSetBit = 31 - leadingZeros;
            mantissaStartBit = highestSetBit - SMALL_FLT_MANTISSA_BITS;
            exp = mantissaStartBit + 1;
            mantissa = drop_bit (unat mantissaStartBit) size' AND SMALL_FLT_MANTISSA_MASK
        in push_bit (unat SMALL_FLT_MANTISSA_BITS) exp OR mantissa)"

definition smallFloatToUint :: "uint32 \<Rightarrow> uint32" where
  "smallFloatToUint floatValue =
     (let exponent = drop_bit (unat SMALL_FLT_MANTISSA_BITS) floatValue;
          mantissa = floatValue AND SMALL_FLT_MANTISSA_MASK
      in if exponent = 0 then mantissa
         else push_bit (unat (exponent - 1)) (mantissa OR SMALL_FLT_MANTISSA_VALUE))"

subsection \<open>Constants and data\<close>

definition NUM_TOP_BINS :: uint32 where "NUM_TOP_BINS = 32"
definition BINS_PER_LEAF :: uint32 where "BINS_PER_LEAF = 8"
definition TOP_BINS_INDEX_SHIFT :: uint32 where "TOP_BINS_INDEX_SHIFT = 3"
definition LEAF_BINS_INDEX_MASK :: uint32 where "LEAF_BINS_INDEX_MASK = 0x7"
definition NUM_LEAF_BINS :: uint32 where "NUM_LEAF_BINS = NUM_TOP_BINS * BINS_PER_LEAF"

definition NO_SPACE :: uint32 where "NO_SPACE = 0xffffffff"
definition UNUSED :: uint32 where "UNUSED = 0xffffffff"

record Alloc =
  offset :: uint32
  metadata :: uint32

text \<open>The default-constructed \<^verbatim>\<open>Alloc{}\<close>, returned when an allocation fails.\<close>

definition Alloc_default :: Alloc where
  "Alloc_default = \<lparr>offset = NO_SPACE, metadata = NO_SPACE\<rparr>"

record StorageReport =
  totalFreeSpace :: uint32
  largestFreeRegion :: uint32

definition StorageReport_default :: StorageReport where
  "StorageReport_default = \<lparr>totalFreeSpace = 0, largestFreeRegion = 0\<rparr>"

record Node =
  dataOffset :: uint32
  dataSize :: uint32
  binListPrev :: uint32
  binListNext :: uint32
  neighborPrev :: uint32
  neighborNext :: uint32
  used :: bool

text \<open>\<^verbatim>\<open>Node()\<close> and \<^verbatim>\<open>Node(dataOffset, dataSize, binListNext)\<close>.\<close>

definition Node_default :: Node where
  "Node_default = \<lparr>dataOffset = 0, dataSize = 0, binListPrev = UNUSED, binListNext = UNUSED,
     neighborPrev = UNUSED, neighborNext = UNUSED, used = False\<rparr>"

definition Node_init :: "uint32 \<Rightarrow> uint32 \<Rightarrow> uint32 \<Rightarrow> Node" where
  "Node_init off sz nxt = \<lparr>dataOffset = off, dataSize = sz, binListPrev = UNUSED,
     binListNext = nxt, neighborPrev = UNUSED, neighborNext = UNUSED, used = False\<rparr>"

text \<open>
  The two fixed arrays of the object, \<^verbatim>\<open>m_usedBins[32]\<close> and \<^verbatim>\<open>m_binIndices[256]\<close>,
  are functions of the index; every access goes through a bounds check. The two heap
  arrays \<^verbatim>\<open>m_nodes\<close> and \<^verbatim>\<open>m_freeNodes\<close> are \<open>None\<close> for \<^verbatim>\<open>nullptr\<close> and otherwise a
  store that is defined exactly on the indices below the allocated length.
\<close>

record OffsetAllocator =
  m_size :: uint32
  m_maxAllocs :: uint32
  m_freeStorage :: uint32
  m_usedBinsTop :: uint32
  m_usedBins :: "uint32 \<Rightarrow> uint8"
  m_binIndices :: "uint32 \<Rightarrow> uint32"
  m_nodes :: "(uint32 \<rightharpoonup> Node) option"
  m_freeNodes :: "(uint32 \<rightharpoonup> uint32) option"
  m_freeOffset :: uint32

text \<open>
  The constructor initialises the size, the capacity, the free storage, the two array
  pointers and the stack pointer; the bitmaps and the bin directory stay uninitialised, so
  their first contents are parameters.
\<close>

definition OffsetAllocator_new ::
  "uint32 \<Rightarrow> uint32 \<Rightarrow> (uint32 \<Rightarrow> uint8) \<Rightarrow> (uint32 \<Rightarrow> uint32) \<Rightarrow> OffsetAllocator" where
  "OffsetAllocator_new maxAllocs top0 bins0 dir0 =
     \<lparr>m_size = 0, m_maxAllocs = maxAllocs, m_freeStorage = 0, m_usedBinsTop = top0,
      m_usedBins = bins0, m_binIndices = dir0, m_nodes = None, m_freeNodes = None,
      m_freeOffset = 0\<rparr>"

subsection \<open>Checked accesses\<close>

definition guard :: "bool \<Rightarrow> unit option" where
  "guard b = (if b then Some () else None)"

text \<open>\<^verbatim>\<open>1 << k\<close> on 32 bits: undefined for \<open>k \<ge> 32\<close>.\<close>

definition shl1 :: "uint32 \<Rightarrow> uint32 option" where
  "shl1 k = (if k < 32 then Some (push_bit (unat k) 1) else None)"

definition usedBins_at :: "OffsetAllocator \<Rightarrow> uint32 \<Rightarrow> uint8 option" where
  "usedBins_at s i = (if i < NUM_TOP_BINS then Some (m_usedBins s i) else None)"

definition usedBins_upd :: "uint32 \<Rightarrow> uint8 \<Rightarrow> OffsetAllocator \<Rightarrow> OffsetAllocator option" where
  "usedBins_upd i v s =
     (if i < NUM_TOP_BINS then Some (s\<lparr>m_usedBins := (m_usedBins s)(i := v)\<rparr>) else None)"

definition binIndices_at :: "OffsetAllocator \<Rightarrow> uint32 \<Rightarrow> uint32 option" where
  "binIndices_at s i = (if i < NUM_LEAF_BINS then Some (m_binIndices s i) else None)"

definition binIndices_upd :: "uint32 \<Rightarrow> uint32 \<Rightarrow> OffsetAllocator \<Rightarrow> OffsetAllocator option" where
  "binIndices_upd i v s =
     (if i < NUM_LEAF_BINS then Some (s\<lparr>m_binIndices := (m_binIndices s)(i := v)\<rparr>) else None)"

definition node_at :: "OffsetAllocator \<Rightarrow> uint32 \<Rightarrow> Node option" where
  "node_at s i = (case m_nodes s of None \<Rightarrow> None | Some ns \<Rightarrow> ns i)"

definition node_upd :: "uint32 \<Rightarrow> (Node \<Rightarrow> Node) \<Rightarrow> OffsetAllocator \<Rightarrow> OffsetAllocator option" where
  "node_upd i f s =
     (case m_nodes s of
        None \<Rightarrow> None
      | Some ns \<Rightarrow>
          (case ns i of
             None \<Rightarrow> None
           | Some n \<Rightarrow> Some (s\<lparr>m_nodes := Some (ns(i \<mapsto> f n))\<rparr>)))"

definition freeNodes_at :: "OffsetAllocator \<Rightarrow> uint32 \<Rightarrow> uint32 option" where
  "freeNodes_at s i = (case m_freeNodes s of None \<Rightarrow> None | Some fs \<Rightarrow> fs i)"

definition freeNodes_upd :: "uint32 \<Rightarrow> uint32 \<Rightarrow> OffsetAllocator \<Rightarrow> OffsetAllocator option" where
  "freeNodes_upd i v s =
     (case m_freeNodes s of
        None \<Rightarrow> None
      | Some fs \<Rightarrow>
          (case fs i of
             None \<Rightarrow> None
           | Some _ \<Rightarrow> Some (s\<lparr>m_freeNodes := Some (fs(i \<mapsto> v))\<rparr>)))"

subsection \<open>Bitmap search\<close>

definition findLowestSetBitAfter :: "uint32 \<Rightarrow> uint32 \<Rightarrow> uint32 option" where
  "findLowestSetBitAfter bitMask startBitIndex = do {
     b \<leftarrow> shl1 startBitIndex;
     let maskBeforeStartIndex = b - 1;
     let maskAfterStartIndex = NOT maskBeforeStartIndex;
     let bitsAfter = bitMask AND maskAfterStartIndex;
     if bitsAfter = 0 then Some NO_SPACE else Some (tzcnt_nonzero bitsAfter)
   }"

text \<open>
  Clearing the leaf bit of a bin that became empty, and the top bit when the whole group
  is empty (lines 271-282 and 429-440 of the source, the same text twice).
\<close>

definition clearBinBits :: "uint32 \<Rightarrow> uint32 \<Rightarrow> uint32 \<Rightarrow> OffsetAllocator \<Rightarrow> OffsetAllocator option" where
  "clearBinBits binIndex topBinIndex leafBinIndex s = do {
     h \<leftarrow> binIndices_at s binIndex;
     if h = UNUSED then do {
       b \<leftarrow> usedBins_at s topBinIndex;
       l \<leftarrow> shl1 leafBinIndex;
       s \<leftarrow> usedBins_upd topBinIndex (b AND NOT (ucast l)) s;
       b \<leftarrow> usedBins_at s topBinIndex;
       if b = 0 then do {
         t \<leftarrow> shl1 topBinIndex;
         Some (s\<lparr>m_usedBinsTop := m_usedBinsTop s AND NOT t\<rparr>)
       } else Some s
     } else Some s
   }"

subsection \<open>Bin insertion and removal\<close>

definition insertNodeIntoBin :: "uint32 \<Rightarrow> uint32 \<Rightarrow> OffsetAllocator \<Rightarrow> (uint32 \<times> OffsetAllocator) option" where
  "insertNodeIntoBin size' dataOffset' s = do {
     let binIndex = uintToSmallFloatRoundDown size';
     let topBinIndex = drop_bit (unat TOP_BINS_INDEX_SHIFT) binIndex;
     let leafBinIndex = binIndex AND LEAF_BINS_INDEX_MASK;
     h \<leftarrow> binIndices_at s binIndex;
     s \<leftarrow> (if h = UNUSED then do {
              b \<leftarrow> usedBins_at s topBinIndex;
              l \<leftarrow> shl1 leafBinIndex;
              s \<leftarrow> usedBins_upd topBinIndex (b OR ucast l) s;
              t \<leftarrow> shl1 topBinIndex;
              Some (s\<lparr>m_usedBinsTop := m_usedBinsTop s OR t\<rparr>)
            } else Some s);
     topNodeIndex \<leftarrow> binIndices_at s binIndex;
     nodeIndex \<leftarrow> freeNodes_at s (m_freeOffset s);
     let s = s\<lparr>m_freeOffset := m_freeOffset s - 1\<rparr>;
     _ \<leftarrow> node_at s nodeIndex;
     s \<leftarrow> node_upd nodeIndex (\<lambda>_. Node_init dataOffset' size' topNodeIndex) s;
     s \<leftarrow> (if topNodeIndex \<noteq> UNUSED
            then node_upd topNodeIndex (\<lambda>n. n\<lparr>binListPrev := nodeIndex\<rparr>) s
            else Some s);
     s \<leftarrow> binIndices_upd binIndex nodeIndex s;
     let s = s\<lparr>m_freeStorage := m_freeStorage s + size'\<rparr>;
     Some (nodeIndex, s)
   }"

definition removeNodeFromBin :: "uint32 \<Rightarrow> OffsetAllocator \<Rightarrow> OffsetAllocator option" where
  "removeNodeFromBin nodeIndex s = do {
     node \<leftarrow> node_at s nodeIndex;
     s \<leftarrow> (if binListPrev node \<noteq> UNUSED then do {
              s \<leftarrow> node_upd (binListPrev node) (\<lambda>n. n\<lparr>binListNext := binListNext node\<rparr>) s;
              node \<leftarrow> node_at s nodeIndex;
              if binListNext node \<noteq> UNUSED
              then node_upd (binListNext node) (\<lambda>n. n\<lparr>binListPrev := binListPrev node\<rparr>) s
              else Some s
            } else do {
              let binIndex = uintToSmallFloatRoundDown (dataSize node);
              let topBinIndex = drop_bit (unat TOP_BINS_INDEX_SHIFT) binIndex;
              let leafBinIndex = binIndex AND LEAF_BINS_INDEX_MASK;
              s \<leftarrow> binIndices_upd binIndex (binListNext node) s;
              s \<leftarrow> (if binListNext node \<noteq> UNUSED
                     then node_upd (binListNext node) (\<lambda>n. n\<lparr>binListPrev := UNUSED\<rparr>) s
                     else Some s);
              clearBinBits binIndex topBinIndex leafBinIndex s
            });
     let s = s\<lparr>m_freeOffset := m_freeOffset s + 1\<rparr>;
     s \<leftarrow> freeNodes_upd (m_freeOffset s) nodeIndex s;
     node \<leftarrow> node_at s nodeIndex;
     Some (s\<lparr>m_freeStorage := m_freeStorage s - dataSize node\<rparr>)
   }"

subsection \<open>allocate\<close>

text \<open>
  Lines 252-299 of \<^verbatim>\<open>allocate\<close>: pop the head node of the bin found by the search, mark
  it used with the exact size, and push the remainder back as a new free node that is
  linked in as the right neighbour. \<^verbatim>\<open>node\<close> is a reference into the arena in the
  source, so every use of it reads the arena again.
\<close>

definition allocateFromBin ::
  "uint32 \<Rightarrow> uint32 \<Rightarrow> uint32 \<Rightarrow> OffsetAllocator \<Rightarrow> (Alloc \<times> OffsetAllocator) option" where
  "allocateFromBin size' topBinIndex leafBinIndex s = do {
     let binIndex = push_bit (unat TOP_BINS_INDEX_SHIFT) topBinIndex OR leafBinIndex;
     nodeIndex \<leftarrow> binIndices_at s binIndex;
     node \<leftarrow> node_at s nodeIndex;
     let nodeTotalSize = dataSize node;
     s \<leftarrow> node_upd nodeIndex (\<lambda>n. n\<lparr>dataSize := size', used := True\<rparr>) s;
     node \<leftarrow> node_at s nodeIndex;
     s \<leftarrow> binIndices_upd binIndex (binListNext node) s;
     s \<leftarrow> (if binListNext node \<noteq> UNUSED
            then node_upd (binListNext node) (\<lambda>n. n\<lparr>binListPrev := UNUSED\<rparr>) s
            else Some s);
     let s = s\<lparr>m_freeStorage := m_freeStorage s - nodeTotalSize\<rparr>;
     s \<leftarrow> clearBinBits binIndex topBinIndex leafBinIndex s;
     let reminderSize = nodeTotalSize - size';
     s \<leftarrow> (if reminderSize > 0 then do {
              node \<leftarrow> node_at s nodeIndex;
              (newNodeIndex, s) \<leftarrow> insertNodeIntoBin reminderSize (dataOffset node + size') s;
              node \<leftarrow> node_at s nodeIndex;
              s \<leftarrow> (if neighborNext node \<noteq> UNUSED
                     then node_upd (neighborNext node) (\<lambda>n. n\<lparr>neighborPrev := newNodeIndex\<rparr>) s
                     else Some s);
              s \<leftarrow> node_upd newNodeIndex (\<lambda>n. n\<lparr>neighborPrev := nodeIndex\<rparr>) s;
              node \<leftarrow> node_at s nodeIndex;
              s \<leftarrow> node_upd newNodeIndex (\<lambda>n. n\<lparr>neighborNext := neighborNext node\<rparr>) s;
              node_upd nodeIndex (\<lambda>n. n\<lparr>neighborNext := newNodeIndex\<rparr>) s
            } else Some s);
     node \<leftarrow> node_at s nodeIndex;
     Some (\<lparr>offset = dataOffset node, metadata = nodeIndex\<rparr>, s)
   }"

text \<open>Lines 217-250: the capacity test and the two-level bitmap search.\<close>

definition allocate :: "uint32 \<Rightarrow> OffsetAllocator \<Rightarrow> (Alloc \<times> OffsetAllocator) option" where
  "allocate size' s =
     (if m_freeOffset s = NO_SPACE then Some (Alloc_default, s)
      else do {
        let minBinIndex = uintToSmallFloatRoundUp size';
        let minTopBinIndex = drop_bit (unat TOP_BINS_INDEX_SHIFT) minBinIndex;
        let minLeafBinIndex = minBinIndex AND LEAF_BINS_INDEX_MASK;
        let topBinIndex = minTopBinIndex;
        t \<leftarrow> shl1 topBinIndex;
        leafBinIndex \<leftarrow>
          (if m_usedBinsTop s AND t \<noteq> 0 then do {
             b \<leftarrow> usedBins_at s topBinIndex;
             findLowestSetBitAfter (ucast b) minLeafBinIndex
           } else Some NO_SPACE);
        if leafBinIndex = NO_SPACE then do {
          topBinIndex \<leftarrow> findLowestSetBitAfter (m_usedBinsTop s) (minTopBinIndex + 1);
          if topBinIndex = NO_SPACE then Some (Alloc_default, s)
          else do {
            b \<leftarrow> usedBins_at s topBinIndex;
            _ \<leftarrow> guard (b \<noteq> 0);
            allocateFromBin size' topBinIndex (tzcnt_nonzero (ucast b)) s
          }
        } else allocateFromBin size' topBinIndex leafBinIndex s
      })"

subsection \<open>free\<close>

text \<open>
  Merging with one free neighbour (lines 317-329 and 331-342): the neighbour leaves its
  bin list and goes back to the free-index stack.
\<close>

definition free :: "uint32 \<Rightarrow> OffsetAllocator \<Rightarrow> OffsetAllocator option" where
  "free nodeIndex s =
     (if nodeIndex = NO_SPACE \<or> m_nodes s = None then Some s
      else do {
        node \<leftarrow> node_at s nodeIndex;
        let offset' = dataOffset node;
        let size' = dataSize node;
        (offset', size', s) \<leftarrow>
          (if neighborPrev node \<noteq> UNUSED then do {
             let p = neighborPrev node;
             prevNode \<leftarrow> node_at s p;
             if \<not> used prevNode then do {
               s \<leftarrow> removeNodeFromBin p s;
               prevNode' \<leftarrow> node_at s p;
               s \<leftarrow> node_upd nodeIndex (\<lambda>n. n\<lparr>neighborPrev := neighborPrev prevNode'\<rparr>) s;
               Some (dataOffset prevNode, size' + dataSize prevNode, s)
             } else Some (offset', size', s)
           } else Some (offset', size', s));
        node \<leftarrow> node_at s nodeIndex;
        (size', s) \<leftarrow>
          (if neighborNext node \<noteq> UNUSED then do {
             let x = neighborNext node;
             nextNode \<leftarrow> node_at s x;
             if \<not> used nextNode then do {
               s \<leftarrow> removeNodeFromBin x s;
               nextNode' \<leftarrow> node_at s x;
               s \<leftarrow> node_upd nodeIndex (\<lambda>n. n\<lparr>neighborNext := neighborNext nextNode'\<rparr>) s;
               Some (size' + dataSize nextNode, s)
             } else Some (size', s)
           } else Some (size', s));
        node \<leftarrow> node_at s nodeIndex;
        let neighborNext' = neighborNext node;
        let neighborPrev' = neighborPrev node;
        let s = s\<lparr>m_freeOffset := m_freeOffset s + 1\<rparr>;
        s \<leftarrow> freeNodes_upd (m_freeOffset s) nodeIndex s;
        (combinedNodeIndex, s) \<leftarrow> insertNodeIntoBin size' offset' s;
        s \<leftarrow> (if neighborNext' \<noteq> UNUSED then do {
                 s \<leftarrow> node_upd combinedNodeIndex (\<lambda>n. n\<lparr>neighborNext := neighborNext'\<rparr>) s;
                 node_upd neighborNext' (\<lambda>n. n\<lparr>neighborPrev := combinedNodeIndex\<rparr>) s
               } else Some s);
        (if neighborPrev' \<noteq> UNUSED then do {
           s \<leftarrow> node_upd combinedNodeIndex (\<lambda>n. n\<lparr>neighborPrev := neighborPrev'\<rparr>) s;
           node_upd neighborPrev' (\<lambda>n. n\<lparr>neighborNext := combinedNodeIndex\<rparr>) s
         } else Some s)
      })"

subsection \<open>reset and the reports\<close>

text \<open>\<^verbatim>\<open>for (uint32 i = 0; i < n; i++) body\<close>, stopping at the first undefined step.\<close>

primrec forM :: "'a list \<Rightarrow> ('a \<Rightarrow> 's \<Rightarrow> 's option) \<Rightarrow> 's \<Rightarrow> 's option" where
  "forM [] f s = Some s"
| "forM (x # xs) f s = (case f x s of None \<Rightarrow> None | Some s' \<Rightarrow> forM xs f s')"

definition for_upto :: "uint32 \<Rightarrow> (uint32 \<Rightarrow> 's \<Rightarrow> 's option) \<Rightarrow> 's \<Rightarrow> 's option" where
  "for_upto n f s = forM (map of_nat [0..<unat n]) f s"

text \<open>\<^verbatim>\<open>new T[n]\<close>: a store defined on the indices below \<open>n\<close>.\<close>

definition new_array :: "uint32 \<Rightarrow> 'a \<Rightarrow> (uint32 \<rightharpoonup> 'a)" where
  "new_array n v = (\<lambda>i. if i < n then Some v else None)"

text \<open>
  The elements of \<^verbatim>\<open>new NodeIndex[n]\<close> are uninitialised; the loop that follows writes
  every one of them, so the model starts them at 0.
\<close>

definition reset :: "uint32 \<Rightarrow> OffsetAllocator \<Rightarrow> OffsetAllocator option" where
  "reset newSize s =
     (if m_size s = newSize then Some s
      else do {
        let s = s\<lparr>m_size := newSize, m_freeStorage := 0, m_usedBinsTop := 0,
                  m_freeOffset := m_maxAllocs s\<rparr>;
        s \<leftarrow> for_upto NUM_TOP_BINS (\<lambda>i. usedBins_upd i 0) s;
        s \<leftarrow> for_upto NUM_LEAF_BINS (\<lambda>i. binIndices_upd i UNUSED) s;
        let s = s\<lparr>m_nodes := Some (new_array (m_maxAllocs s + 1) Node_default),
                  m_freeNodes := Some (new_array (m_maxAllocs s + 1) 0)\<rparr>;
        s \<leftarrow> for_upto (m_maxAllocs s + 1) (\<lambda>i s. freeNodes_upd i (m_maxAllocs s - i) s) s;
        (_, s) \<leftarrow> insertNodeIntoBin (m_size s) 0 s;
        Some s
      })"

definition allocationSize :: "Alloc \<Rightarrow> OffsetAllocator \<Rightarrow> uint32 option" where
  "allocationSize allocation s =
     (if metadata allocation = NO_SPACE then Some 0
      else if m_nodes s = None then Some 0
      else map_option dataSize (node_at s (metadata allocation)))"

definition storageReport :: "OffsetAllocator \<Rightarrow> StorageReport option" where
  "storageReport s =
     (if m_freeOffset s = 0 then Some StorageReport_default
      else if m_usedBinsTop s \<noteq> 0 then do {
        let topBinIndex = 31 - lzcnt_nonzero (m_usedBinsTop s);
        b \<leftarrow> usedBins_at s topBinIndex;
        _ \<leftarrow> guard (b \<noteq> 0);
        let leafBinIndex = 31 - lzcnt_nonzero (ucast b);
        Some \<lparr>totalFreeSpace = m_freeStorage s,
              largestFreeRegion =
                smallFloatToUint (push_bit (unat TOP_BINS_INDEX_SHIFT) topBinIndex OR leafBinIndex)\<rparr>
      } else Some \<lparr>totalFreeSpace = m_freeStorage s, largestFreeRegion = 0\<rparr>)"


section \<open>Auxiliary notions for the proofs\<close>

text \<open>
  The positions of the highest and of the lowest set bit, as natural numbers, and the
  size that a size class stands for, without the wrap-around of 32 bits (class 240 and above
  stand for sizes of at least \<open>2 ^ 32\<close>).
\<close>

definition hibit :: "uint32 \<Rightarrow> nat" where
  "hibit v = 31 - length (takeWhile (\<lambda>i. \<not> bit v i) (rev [0..<32]))"

definition lobit :: "uint32 \<Rightarrow> nat" where
  "lobit v = length (takeWhile (\<lambda>i. \<not> bit v i) [0..<32])"

definition classSize :: "nat \<Rightarrow> nat" where
  "classSize c = (if c < 8 then c else (8 + c mod 8) * 2 ^ (c div 8 - 1))"

text \<open>
  The scenario of the specification on an allocator of capacity 128 and size 1024, and what
  the caller observes of it: the offset and the size of the first allocation, the offset of
  the second, the free space reported after the first is freed, and the allocations
  answered to the requests of 974, 900 and 800 that follow.
\<close>

definition scenario ::
  "uint32 \<Rightarrow> (uint32 \<Rightarrow> uint8) \<Rightarrow> (uint32 \<Rightarrow> uint32) \<Rightarrow>
     (uint32 \<times> uint32 \<times> uint32 \<times> uint32 \<times> Alloc \<times> Alloc \<times> Alloc) option" where
  "scenario top0 bins0 dir0 = do {
     s0 \<leftarrow> reset 1024 (OffsetAllocator_new 128 top0 bins0 dir0);
     (a1, s1) \<leftarrow> allocate 100 s0;
     sz1 \<leftarrow> allocationSize a1 s1;
     (a2, s2) \<leftarrow> allocate 50 s1;
     s3 \<leftarrow> free (metadata a1) s2;
     r \<leftarrow> storageReport s3;
     (a3, s4) \<leftarrow> allocate 974 s3;
     (a4, s5) \<leftarrow> allocate 900 s4;
     (a5, s6) \<leftarrow> allocate 800 s5;
     Some (offset a1, sz1, offset a2, totalFreeSpace r, a3, a4, a5)
   }"


section \<open>The bit scans and the size-class codec\<close>


lemma takeWhile_stop:
  "\<exists>x\<in>set xs. \<not> P x \<Longrightarrow>
     length (takeWhile P xs) < length xs \<and> \<not> P (xs ! length (takeWhile P xs)) \<and>
     (\<forall>k<length (takeWhile P xs). P (xs ! k))"
proof (induction xs)
  case Nil
  then show ?case by simp
next
  case (Cons a xs)
  show ?case
  proof (cases "P a")
    case True
    with Cons.prems have "\<exists>x\<in>set xs. \<not> P x" by auto
    from Cons.IH[OF this] True show ?thesis
      by (auto simp: nth_Cons split: nat.splits)
  next
    case False
    then show ?thesis by simp
  qed
qed

lemma word32_nonzero_bit: "(v::uint32) \<noteq> 0 \<Longrightarrow> \<exists>i<32. bit v i"
proof -
  assume "v \<noteq> 0"
  then obtain i where i: "bit v i" by (auto simp: bit_eq_iff)
  then have "i < 32" using bit_imp_le_length[of v i] by simp
  with i show ?thesis by auto
qed

lemma hibit_props:
  assumes "(v::uint32) \<noteq> 0"
  shows "hibit v < 32" "bit v (hibit v)" "\<And>j. hibit v < j \<Longrightarrow> \<not> bit v j"
    "lzcnt_nonzero v = of_nat (31 - hibit v)" "31 - lzcnt_nonzero v = of_nat (hibit v)"
proof -
  let ?P = "\<lambda>i. \<not> bit v i"
  let ?n = "length (takeWhile ?P (rev [0..<32]))"
  from word32_nonzero_bit[OF assms] have "\<exists>x\<in>set (rev [0..<32]). \<not> ?P x" by auto
  from takeWhile_stop[OF this]
  have n: "?n < 32" and b: "\<not> ?P (rev [0..<32] ! ?n)" and a: "\<forall>k<?n. ?P (rev [0..<32] ! k)"
    by simp_all
  show "hibit v < 32" by (simp add: hibit_def)
  from b n show "bit v (hibit v)" by (simp add: hibit_def rev_nth)
  show "\<not> bit v j" if "hibit v < j" for j
  proof (cases "j < 32")
    case True
    with that n have "31 - j < ?n" by (simp add: hibit_def)
    with a have "?P (rev [0..<32] ! (31 - j))" by blast
    with True show ?thesis by (simp add: rev_nth)
  next
    case False
    then show ?thesis using bit_imp_le_length[of v j] by auto
  qed
  from n show "lzcnt_nonzero v = of_nat (31 - hibit v)"
    by (simp add: lzcnt_nonzero_def hibit_def)
  from n have "(31::uint32) - of_nat ?n = of_nat (31 - ?n)"
    by (simp add: of_nat_diff)
  with n show "31 - lzcnt_nonzero v = of_nat (hibit v)"
    by (simp add: lzcnt_nonzero_def hibit_def)
qed

lemma lobit_props:
  assumes "(v::uint32) \<noteq> 0"
  shows "lobit v < 32" "bit v (lobit v)" "\<And>j. j < lobit v \<Longrightarrow> \<not> bit v j"
    "tzcnt_nonzero v = of_nat (lobit v)"
proof -
  let ?P = "\<lambda>i. \<not> bit v i"
  let ?n = "length (takeWhile ?P [0..<32])"
  from word32_nonzero_bit[OF assms] have "\<exists>x\<in>set [0..<32]. \<not> ?P x" by auto
  from takeWhile_stop[OF this]
  have st: "?n < length [0..<32] \<and> \<not> ?P ([0..<32] ! ?n) \<and> (\<forall>k<?n. ?P ([0..<32] ! k))" .
  then have n: "?n < 32" by simp
  from st have b: "\<not> ?P ([0..<32] ! ?n)" and a: "\<forall>k<?n. ?P ([0..<32] ! k)"
    by blast+
  show "lobit v < 32" using n by (simp add: lobit_def)
  from b n show "bit v (lobit v)" by (simp add: lobit_def)
  show "\<not> bit v j" if "j < lobit v" for j
  proof -
    from that a have "?P ([0..<32] ! j)" unfolding lobit_def by blast
    with that n show ?thesis by (simp add: lobit_def)
  qed
  show "tzcnt_nonzero v = of_nat (lobit v)"
    by (simp add: tzcnt_nonzero_def lobit_def)
qed


lemma nat_bit_lower: "bit (n::nat) h \<Longrightarrow> 2 ^ h \<le> n"
  by (rule ccontr) (simp add: not_le bit_iff_odd)

lemma nat_bit_upper: "(\<And>j. h < j \<Longrightarrow> \<not> bit (n::nat) j) \<Longrightarrow> n < 2 ^ (h + 1)"
proof -
  assume a: "\<And>j. h < j \<Longrightarrow> \<not> bit (n::nat) j"
  have "k < h + 1" if "bit n k" for k
    using a[of k] that by (cases "h < k") auto
  then have "take_bit (h + 1) n = n"
    by (intro bit_eqI) (auto simp: bit_take_bit_iff)
  then show ?thesis
    by (metis take_bit_nat_less_exp)
qed

lemma hibit_lower: "(v::uint32) \<noteq> 0 \<Longrightarrow> 2 ^ hibit v \<le> unat v"
  using hibit_props(2)[of v] by (simp add: nat_bit_lower bit_unsigned_iff)

lemma hibit_upper: "(v::uint32) \<noteq> 0 \<Longrightarrow> unat v < 2 ^ (hibit v + 1)"
  using hibit_props(3)[of v] by (intro nat_bit_upper) (simp add: bit_unsigned_iff)


lemma codec_consts [simp]:
  "SMALL_FLT_MANTISSA_BITS = 3" "SMALL_FLT_MANTISSA_VALUE = 8" "SMALL_FLT_MANTISSA_MASK = 7"
  by (simp_all add: SMALL_FLT_MANTISSA_BITS_def SMALL_FLT_MANTISSA_VALUE_def SMALL_FLT_MANTISSA_MASK_def)

lemma unat_of_nat32: "n < 2 ^ 32 \<Longrightarrow> unat (of_nat n :: uint32) = n"
  by (simp add: unat_of_nat)

lemma seven_mask: "(7::uint32) = mask 3"
  by (simp add: mask_eq_exp_minus_1)

lemma unat_and_7: "unat ((w::uint32) AND 7) = unat w mod 8"
  by (simp add: seven_mask flip: take_bit_eq_mask add: unsigned_take_bit_eq take_bit_eq_mod unat_mod)

lemma hibit_ge3: "\<not> (v::uint32) < 8 \<Longrightarrow> 3 \<le> hibit v \<and> hibit v < 32 \<and> v \<noteq> 0"
proof -
  assume a: "\<not> v < 8"
  then have nz: "v \<noteq> 0" by auto
  from a have "8 \<le> unat v" by (simp add: word_less_nat_alt not_less)
  with hibit_upper[OF nz] have lt: "(2::nat) ^ 3 < 2 ^ (hibit v + 1)" by simp
  have "3 < hibit v + 1"
    by (rule power_less_imp_less_exp[where a="2::nat"]) (simp, rule lt)
  with hibit_props(1)[OF nz] nz show ?thesis by simp
qed

lemma rd_small: "(v::uint32) < 8 \<Longrightarrow> uintToSmallFloatRoundDown v = v"
  by (simp add: uintToSmallFloatRoundDown_def)

lemma ru_small: "(v::uint32) < 8 \<Longrightarrow> uintToSmallFloatRoundUp v = v"
  by (simp add: uintToSmallFloatRoundUp_def)

lemma msb_facts:
  assumes "\<not> (v::uint32) < 8"
  shows "31 - lzcnt_nonzero v - 3 = of_nat (hibit v - 3)"
    "unat (of_nat (hibit v - 3) :: uint32) = hibit v - 3"
    "8 \<le> unat v div 2 ^ (hibit v - 3)" "unat v div 2 ^ (hibit v - 3) < 16"
proof -
  from hibit_ge3[OF assms] have h: "3 \<le> hibit v" "hibit v < 32" "v \<noteq> 0" by auto
  from h show e: "31 - lzcnt_nonzero v - 3 = of_nat (hibit v - 3)"
    by (simp add: hibit_props(5) of_nat_diff)
  from h show "unat (of_nat (hibit v - 3) :: uint32) = hibit v - 3"
    by (intro unat_of_nat32) simp
  have "hibit v = (hibit v - 3) + 3" "hibit v + 1 = (hibit v - 3) + 4" using h by simp_all
  then have "(2::nat) ^ hibit v = 2 ^ (hibit v - 3) * 2 ^ 3"
    "(2::nat) ^ (hibit v + 1) = 2 ^ (hibit v - 3) * 2 ^ 4"
    by (metis power_add)+
  then have p: "2 ^ (hibit v - 3) * 8 \<le> unat v" "unat v < 16 * 2 ^ (hibit v - 3)"
    using hibit_lower[OF h(3)] hibit_upper[OF h(3)] by simp_all
  from p(1) have "(2 ^ (hibit v - 3) * 8) div 2 ^ (hibit v - 3) \<le> unat v div 2 ^ (hibit v - 3)"
    by (rule div_le_mono)
  then show "8 \<le> unat v div 2 ^ (hibit v - 3)" by simp
  from p(2) show "unat v div 2 ^ (hibit v - 3) < 16"
    by (rule less_mult_imp_div_less)
qed

lemma mod8_sub: "8 \<le> (x::nat) \<Longrightarrow> x < 16 \<Longrightarrow> x mod 8 = x - 8"
  by (simp add: le_mod_geq)

lemma or_low3:
  "(m::uint32) AND 7 = m \<Longrightarrow> push_bit 3 (x::uint32) OR m = push_bit 3 x + m"
proof -
  assume a: "m AND 7 = m"
  have "\<not> bit m n" if "3 \<le> n" for n
  proof -
    have "bit m n = bit (m AND mask 3) n" using a by (simp add: seven_mask)
    with that show ?thesis by (simp add: bit_simps)
  qed
  then have "push_bit 3 x + m = push_bit 3 x OR m"
    by (intro disjunctive_add_eq_or bit_eqI) (auto simp: bit_simps)
  then show ?thesis by simp
qed

lemma rd_unfold:
  "\<not> (v::uint32) < 8 \<Longrightarrow> uintToSmallFloatRoundDown v =
     (let s = 31 - lzcnt_nonzero v - 3 in push_bit 3 (s + 1) OR (drop_bit (unat s) v AND 7))"
  by (simp add: uintToSmallFloatRoundDown_def Let_def)

lemma ru_unfold:
  "\<not> (v::uint32) < 8 \<Longrightarrow> uintToSmallFloatRoundUp v =
     (let s = 31 - lzcnt_nonzero v - 3 in
        push_bit 3 (s + 1) + ((drop_bit (unat s) v AND 7) +
          (if v AND (push_bit (unat s) 1 - 1) \<noteq> 0 then 1 else 0)))"
  by (simp add: uintToSmallFloatRoundUp_def Let_def)

lemma word_of_unat32: "(w::uint32) = of_nat (unat w)"
  by simp

lemma small_bound: "s \<le> 28 \<Longrightarrow> d < 16 \<Longrightarrow> c \<le> 1 \<Longrightarrow> 8 * s + d + c < (2::nat) ^ 32"
  by simp

lemma rd_large:
  assumes "\<not> (v::uint32) < 8"
  shows "unat (uintToSmallFloatRoundDown v) = 8 * (hibit v - 3) + unat v div 2 ^ (hibit v - 3)"
proof -
  from hibit_ge3[OF assms] have h: "3 \<le> hibit v" "hibit v < 32" "v \<noteq> 0" by auto
  note m = msb_facts[OF assms]
  let ?s = "hibit v - 3"
  let ?m = "drop_bit ?s v AND 7"
  let ?K = "8 * ?s + unat v div 2 ^ ?s"
  have um: "unat ?m = unat v div 2 ^ ?s - 8"
    using m(3,4) by (simp add: unat_and_7 unat_drop_bit_eq mod8_sub drop_bit_eq_div[where 'a=nat])
  have e: "push_bit 3 (of_nat ?s + 1 :: uint32) OR ?m = push_bit 3 (of_nat ?s + 1) + ?m"
    by (rule or_low3) (simp add: and.assoc)
  have p: "push_bit 3 (of_nat ?s + 1 :: uint32) = of_nat (8 * (?s + 1))"
    by (simp add: push_bit_eq_mult)
  have mm: "?m = of_nat (unat v div 2 ^ ?s - 8)"
    by (subst word_of_unat32[of ?m]) (simp only: um)
  have "uintToSmallFloatRoundDown v = push_bit 3 (of_nat ?s + 1) OR ?m"
    unfolding rd_unfold[OF assms] Let_def m(1) m(2) ..
  also have "\<dots> = push_bit 3 (of_nat ?s + 1) + ?m" by (rule e)
  also have "\<dots> = of_nat (8 * (?s + 1)) + of_nat (unat v div 2 ^ ?s - 8)"
    by (subst p, subst mm, rule refl)
  also have "\<dots> = of_nat (8 * (?s + 1) + (unat v div 2 ^ ?s - 8))"
    by (simp only: of_nat_add)
  also have "8 * (?s + 1) + (unat v div 2 ^ ?s - 8) = ?K"
    using m(3) by simp
  finally have "uintToSmallFloatRoundDown v = of_nat ?K" .
  moreover have "?K < 2 ^ 32" using h m(4) by simp
  ultimately show ?thesis by (simp only: unat_of_nat32)
qed

lemma ru_large:
  assumes "\<not> (v::uint32) < 8"
  shows "unat (uintToSmallFloatRoundUp v) =
           8 * (hibit v - 3) + unat v div 2 ^ (hibit v - 3) +
           (if unat v mod 2 ^ (hibit v - 3) = 0 then 0 else 1)"
proof -
  from hibit_ge3[OF assms] have h: "3 \<le> hibit v" "hibit v < 32" "v \<noteq> 0" by auto
  note m = msb_facts[OF assms]
  let ?s = "hibit v - 3"
  let ?m = "drop_bit ?s v AND 7"
  let ?c = "if unat v mod 2 ^ ?s = 0 then 0 else 1 :: nat"
  let ?K = "8 * ?s + unat v div 2 ^ ?s + ?c"
  have um: "unat ?m = unat v div 2 ^ ?s - 8"
    using m(3,4) by (simp add: unat_and_7 unat_drop_bit_eq mod8_sub drop_bit_eq_div[where 'a=nat])
  have p: "push_bit 3 (of_nat ?s + 1 :: uint32) = of_nat (8 * (?s + 1))"
    by (simp add: push_bit_eq_mult)
  have mm: "?m = of_nat (unat v div 2 ^ ?s - 8)"
    by (subst word_of_unat32[of ?m]) (simp only: um)
  have lm: "push_bit ?s (1::uint32) - 1 = mask ?s"
    by (simp add: mask_eq_exp_minus_1)
  have low: "(v AND mask ?s \<noteq> 0) = (unat v mod 2 ^ ?s \<noteq> 0)"
    using and_mask_dvd_nat[of ?s v] by (auto simp: mod_eq_0_iff_dvd)
  have cc: "(if v AND (push_bit ?s 1 - 1) \<noteq> 0 then 1 else 0 :: uint32) = of_nat ?c"
    unfolding lm low by simp
  have "uintToSmallFloatRoundUp v =
          push_bit 3 (of_nat ?s + 1) + (?m + (if v AND (push_bit ?s 1 - 1) \<noteq> 0 then 1 else 0))"
    unfolding ru_unfold[OF assms] Let_def m(1) m(2) ..
  also have "\<dots> = of_nat (8 * (?s + 1)) + (of_nat (unat v div 2 ^ ?s - 8) + of_nat ?c)"
    by (subst p, subst mm, subst cc, rule refl)
  also have "\<dots> = of_nat (8 * (?s + 1) + (unat v div 2 ^ ?s - 8) + ?c)"
    by (simp only: of_nat_add add.assoc)
  also have "8 * (?s + 1) + (unat v div 2 ^ ?s - 8) + ?c = ?K"
    using m(3) by simp
  finally have "uintToSmallFloatRoundUp v = of_nat ?K" .
  moreover have "?K < 2 ^ 32" using h m(4) by (intro small_bound) simp_all
  ultimately show ?thesis by (simp only: unat_of_nat32)
qed


lemma hibit_unique:
  assumes "2 ^ k \<le> unat (v::uint32)" "unat v < 2 ^ (k + 1)"
  shows "hibit v = k"
proof -
  have "0 < (2::nat) ^ k" by simp
  with assms(1) have "0 < unat v" by linarith
  then have nz: "v \<noteq> 0" by (simp add: unat_gt_0)
  from hibit_lower[OF nz] assms(2) have "(2::nat) ^ hibit v < 2 ^ (k + 1)" by simp
  then have a: "hibit v < k + 1" by (rule power_less_imp_less_exp[where a="2::nat", rotated]) simp
  from hibit_upper[OF nz] assms(1) have "(2::nat) ^ k < 2 ^ (hibit v + 1)" by simp
  then have "k < hibit v + 1" by (rule power_less_imp_less_exp[where a="2::nat", rotated]) simp
  with a show ?thesis by simp
qed

lemma hibit_mono:
  assumes "(v::uint32) \<le> w" "v \<noteq> 0"
  shows "hibit v \<le> hibit w"
proof -
  from assms have nz: "w \<noteq> 0" by auto
  from assms(1) have "unat v \<le> unat w" by (simp add: word_le_nat_alt)
  with hibit_lower[OF assms(2)] hibit_upper[OF nz] have "(2::nat) ^ hibit v < 2 ^ (hibit w + 1)"
    by simp
  then have "hibit v < hibit w + 1"
    by (rule power_less_imp_less_exp[where a="2::nat", rotated]) simp
  then show ?thesis by simp
qed

lemma lin_bound1: "h < 32 \<Longrightarrow> d < 16 \<Longrightarrow> 8 * (h - 3) + d < (240::nat)"
  by simp

lemma lin_bound2: "h < 32 \<Longrightarrow> d < 16 \<Longrightarrow> c \<le> 1 \<Longrightarrow> 8 * (h - 3) + d + c \<le> (240::nat)"
  by simp

lemma rd_bound: "unat (uintToSmallFloatRoundDown v) < 240"
proof (cases "v < 8")
  case True
  then show ?thesis by (simp add: rd_small word_less_nat_alt)
next
  case False
  from hibit_ge3[OF False] msb_facts(4)[OF False] show ?thesis
    unfolding rd_large[OF False] by (intro lin_bound1) simp_all
qed

lemma ru_bound: "unat (uintToSmallFloatRoundUp v) \<le> 240"
proof (cases "v < 8")
  case True
  then show ?thesis by (simp add: ru_small word_less_nat_alt)
next
  case False
  from hibit_ge3[OF False] msb_facts(4)[OF False] show ?thesis
    unfolding ru_large[OF False] by (intro lin_bound2) simp_all
qed

lemma rd_mono:
  assumes "(v::uint32) \<le> w"
  shows "uintToSmallFloatRoundDown v \<le> uintToSmallFloatRoundDown w"
proof (cases "w < 8")
  case True
  with assms have "v < 8" by simp
  with True assms show ?thesis by (simp add: rd_small)
next
  case w: False
  note mw = msb_facts[OF w]
  show ?thesis
  proof (cases "v < 8")
    case True
    then have "unat v < 8" by (simp add: word_less_nat_alt)
    with mw(3) show ?thesis
      by (simp add: word_le_nat_alt rd_large[OF w] rd_small[OF True])
  next
    case v: False
    note mv = msb_facts[OF v]
    from hibit_ge3[OF v] have hv: "3 \<le> hibit v" "v \<noteq> 0" by auto
    from hibit_mono[OF assms hv(2)] have hm: "hibit v \<le> hibit w" .
    show ?thesis
    proof (cases "hibit v = hibit w")
      case True
      from assms have "unat v div 2 ^ (hibit w - 3) \<le> unat w div 2 ^ (hibit w - 3)"
        by (intro div_le_mono) (simp add: word_le_nat_alt)
      with True show ?thesis
        by (simp add: word_le_nat_alt rd_large[OF w] rd_large[OF v])
    next
      case False
      with hm hv have "hibit v - 3 + 1 \<le> hibit w - 3" by simp
      then have "8 * (hibit v - 3) + 8 \<le> 8 * (hibit w - 3)" by simp
      with mv(4) mw(3) show ?thesis
        by (simp add: word_le_nat_alt rd_large[OF w] rd_large[OF v])
    qed
  qed
qed

lemma ceil_mono:
  assumes "(a::nat) \<le> b"
  shows "a div d + (if a mod d = 0 then 0 else 1) \<le> b div d + (if b mod d = 0 then 0 else 1)"
proof (cases "a div d = b div d")
  case True
  have "a = d * (a div d) + a mod d" "b = d * (b div d) + b mod d" by simp_all
  with True assms have "a mod d \<le> b mod d"
    by (metis add_le_cancel_left)
  with True show ?thesis by auto
next
  case False
  with assms have "a div d < b div d"
    by (meson div_le_mono le_neq_implies_less)
  then show ?thesis by auto
qed

lemma ru_mono:
  assumes "(v::uint32) \<le> w"
  shows "uintToSmallFloatRoundUp v \<le> uintToSmallFloatRoundUp w"
proof (cases "w < 8")
  case True
  with assms have "v < 8" by simp
  with True assms show ?thesis by (simp add: ru_small)
next
  case w: False
  note mw = msb_facts[OF w]
  show ?thesis
  proof (cases "v < 8")
    case True
    then have "unat v < 8" by (simp add: word_less_nat_alt)
    with mw(3) show ?thesis
      by (simp add: word_le_nat_alt ru_large[OF w] ru_small[OF True])
  next
    case v: False
    note mv = msb_facts[OF v]
    from hibit_ge3[OF v] have hv: "3 \<le> hibit v" "v \<noteq> 0" by auto
    from hibit_mono[OF assms hv(2)] have hm: "hibit v \<le> hibit w" .
    show ?thesis
    proof (cases "hibit v = hibit w")
      case True
      from assms have "unat v \<le> unat w" by (simp add: word_le_nat_alt)
      from ceil_mono[OF this, of "2 ^ (hibit w - 3)"] True show ?thesis
        by (simp add: word_le_nat_alt ru_large[OF w] ru_large[OF v])
    next
      case False
      with hm hv have "hibit v - 3 + 1 \<le> hibit w - 3" by simp
      then have "8 * (hibit v - 3) + 8 \<le> 8 * (hibit w - 3)" by simp
      with mv(4) mw(3) show ?thesis
        by (simp add: word_le_nat_alt ru_large[OF w] ru_large[OF v])
    qed
  qed
qed


lemma divmod8: "8 \<le> d \<Longrightarrow> d < 16 \<Longrightarrow> (8 * s + d) div 8 = s + 1 \<and> (8 * s + d) mod 8 = d - (8::nat)"
  by presburger

lemma classSize_at: "8 \<le> d \<Longrightarrow> d < 16 \<Longrightarrow> classSize (8 * s + d) = d * 2 ^ s"
  using divmod8[of d s] by (simp add: classSize_def)

lemma classSize_at16: "classSize (8 * s + 16) = 16 * 2 ^ s"
proof -
  have "(8 * s + 16) div 8 = s + 2 \<and> (8 * s + 16) mod 8 = (0::nat)" by presburger
  then show ?thesis by (simp add: classSize_def)
qed

lemma classSize_Suc: "classSize c < classSize (Suc c)"
proof -
  have "c < 7 \<or> c = 7 \<or> (8 \<le> c \<and> c mod 8 < 7) \<or> (8 \<le> c \<and> c mod 8 = 7)" by presburger
  then consider "c < 7" | "c = 7" | "8 \<le> c" "c mod 8 < 7" | "8 \<le> c" "c mod 8 = 7"
    by blast
  then show ?thesis
  proof cases
    case 1
    then show ?thesis by (simp add: classSize_def)
  next
    case 2
    then show ?thesis by (simp add: classSize_def)
  next
    case 3
    then have "Suc c mod 8 = c mod 8 + 1" "Suc c div 8 = c div 8" by presburger+
    with 3 show ?thesis by (simp add: classSize_def)
  next
    case 4
    then have e: "Suc c mod 8 = 0" "Suc c div 8 = c div 8 + 1" "1 \<le> c div 8" by presburger+
    then have "(2::nat) ^ (c div 8) = 2 * 2 ^ (c div 8 - 1)"
      by (metis Suc_diff_1 less_eq_Suc_le One_nat_def power_Suc)
    with 4 e show ?thesis by (simp add: classSize_def)
  qed
qed

lemma classSize_mono: "c \<le> c' \<Longrightarrow> classSize c \<le> classSize c'"
  by (rule lift_Suc_mono_le[of classSize]) (simp_all add: classSize_Suc less_imp_le)

lemma classSize_rd: "classSize (unat (uintToSmallFloatRoundDown v)) \<le> unat v"
proof (cases "v < 8")
  case True
  then show ?thesis by (simp add: rd_small classSize_def word_less_nat_alt)
next
  case False
  note m = msb_facts[OF False]
  show ?thesis
    unfolding rd_large[OF False] classSize_at[OF m(3,4)] by simp
qed

lemma classSize_ru: "unat v \<le> classSize (unat (uintToSmallFloatRoundUp v))"
proof (cases "v < 8")
  case True
  then show ?thesis by (simp add: ru_small classSize_def word_less_nat_alt)
next
  case False
  note m = msb_facts[OF False]
  let ?s = "hibit v - 3"
  let ?d = "unat v div 2 ^ ?s"
  show ?thesis
  proof (cases "unat v mod 2 ^ ?s = 0")
    case True
    then have "unat v = ?d * 2 ^ ?s" by (simp add: mod_eq_0_iff_dvd)
    with True show ?thesis
      unfolding ru_large[OF False] by (simp add: classSize_at[OF m(3,4)])
  next
    case nz: False
    have lt: "unat v < 2 ^ ?s + ?d * 2 ^ ?s" by (rule dividend_less_div_times) simp
    have "classSize (8 * ?s + ?d + 1) = (?d + 1) * 2 ^ ?s"
    proof (cases "?d = 15")
      case True
      then have "8 * ?s + ?d + 1 = 8 * ?s + 16" by simp
      with True show ?thesis by (simp only: classSize_at16) simp
    next
      case False
      with m(3,4) have c': "8 \<le> ?d + 1" "?d + 1 < 16" by simp_all
      show ?thesis using classSize_at[OF c', of ?s] by (simp add: add.assoc)
    qed
    with lt nz show ?thesis by (simp add: ru_large[OF \<open>\<not> v < 8\<close>])
  qed
qed

lemma fits:
  assumes "uintToSmallFloatRoundUp n \<le> uintToSmallFloatRoundDown t"
  shows "n \<le> t"
proof -
  from assms have "unat (uintToSmallFloatRoundUp n) \<le> unat (uintToSmallFloatRoundDown t)"
    by (simp add: word_le_nat_alt)
  from classSize_mono[OF this] classSize_ru[of n] classSize_rd[of t]
  show ?thesis by (simp add: word_le_nat_alt)
qed

lemma unat_drop3: "unat (drop_bit 3 (c::uint32)) = unat c div 8"
  by (simp add: unat_drop_bit_eq drop_bit_eq_div[where 'a=nat])

lemma pow_bound: "k \<le> 28 \<Longrightarrow> m < 16 \<Longrightarrow> m * 2 ^ k < (2::nat) ^ 32"
proof -
  assume a: "k \<le> 28" "m < 16"
  then have "(2::nat) ^ k \<le> 2 ^ 28" by (intro power_increasing) simp_all
  with a(2) have "m * 2 ^ k < 16 * 2 ^ 28"
    by (intro mult_less_le_imp_less) simp_all
  then show ?thesis by simp
qed

lemma unat_push_bit32: "unat (push_bit k (w::uint32)) = (unat w * 2 ^ k) mod 2 ^ 32"
  by (subst unsigned_push_bit_eq) (simp add: take_bit_eq_mod push_bit_eq_mult)

lemma unat_smallFloatToUint:
  assumes "unat (c::uint32) < 240"
  shows "unat (smallFloatToUint c) = classSize (unat c)"
proof (cases "unat c < 8")
  case True
  then have "unat (drop_bit 3 c) = 0" by (simp add: unat_drop3)
  then have "drop_bit 3 c = 0" by (simp only: unat_eq_zero)
  with True show ?thesis
    by (simp add: smallFloatToUint_def classSize_def unat_and_7)
next
  case False
  let ?e = "drop_bit 3 c"
  let ?m = "c AND 7"
  from False have e1: "1 \<le> unat c div 8" by presburger
  from assms have e2: "unat c div 8 \<le> 29" by presburger
  from e1 have "unat ?e \<noteq> 0" by (simp add: unat_drop3)
  then have enz: "?e \<noteq> 0" by (simp only: unat_eq_zero not_False_eq_True)
  then have ue: "unat (?e - 1) = unat c div 8 - 1"
    by (simp add: unat_minus_one unat_drop3)
  have "push_bit 3 1 OR ?m = push_bit 3 1 + ?m" by (rule or_low3) (simp add: and.assoc)
  then have "?m OR 8 = 8 + ?m" by (simp add: or.commute)
  then have um: "unat (?m OR 8) = 8 + unat c mod 8"
    by (simp add: unat_word_ariths unat_and_7)
  have b: "(8 + unat c mod 8) * 2 ^ (unat c div 8 - 1) < 2 ^ 32"
    using e2 by (intro pow_bound) simp_all
  have sf: "smallFloatToUint c = push_bit (unat (?e - 1)) (?m OR 8)"
    using enz by (simp add: smallFloatToUint_def Let_def)
  have "unat (smallFloatToUint c) = ((8 + unat c mod 8) * 2 ^ (unat c div 8 - 1)) mod 2 ^ 32"
    unfolding sf unat_push_bit32 ue um ..
  with b False show ?thesis by (simp add: classSize_def)
qed

lemma roundtrip:
  assumes "unat (c::uint32) < 240"
  shows "uintToSmallFloatRoundUp (smallFloatToUint c) = c"
    "uintToSmallFloatRoundDown (smallFloatToUint c) = c"
proof -
  let ?v = "smallFloatToUint c"
  have uv: "unat ?v = classSize (unat c)" by (rule unat_smallFloatToUint[OF assms])
  have "unat (uintToSmallFloatRoundUp ?v) = unat c \<and> unat (uintToSmallFloatRoundDown ?v) = unat c"
  proof (cases "unat c < 8")
    case True
    with uv have "?v < 8" by (simp add: word_less_nat_alt classSize_def)
    with uv True show ?thesis by (simp add: ru_small rd_small classSize_def)
  next
    case False
    let ?e = "unat c div 8"
    let ?m = "unat c mod 8"
    from False have e1: "1 \<le> ?e" by presburger
    have cs: "unat ?v = (8 + ?m) * 2 ^ (?e - 1)" using uv False by (simp add: classSize_def)
    have "?e + 2 = (?e - 1) + 3" "?e + 2 + 1 = (?e - 1) + 4" using e1 by simp_all
    then have pw: "(2::nat) ^ (?e + 2) = 2 ^ (?e - 1) * 2 ^ 3" "(2::nat) ^ (?e + 2 + 1) = 2 ^ (?e - 1) * 2 ^ 4"
      by (metis power_add)+
    have lo: "2 ^ (?e + 2) \<le> unat ?v" unfolding pw cs by simp
    have "?m < 8" by simp
    then have hi: "unat ?v < 2 ^ (?e + 2 + 1)" unfolding pw cs by simp
    have hb: "hibit ?v = ?e + 2" by (rule hibit_unique[OF lo hi])
    have "(2::nat) ^ 3 \<le> 2 ^ (?e + 2)" using e1 by (intro power_increasing) simp_all
    with lo have "8 \<le> unat ?v" by simp
    then have n8: "\<not> ?v < 8" by (simp add: word_less_nat_alt)
    have dv: "unat ?v div 2 ^ (?e - 1) = 8 + ?m" "unat ?v mod 2 ^ (?e - 1) = 0"
      unfolding cs by simp_all
    have "8 * (?e - 1) + (8 + ?m) = unat c" using e1 by presburger
    then show ?thesis
      unfolding ru_large[OF n8] rd_large[OF n8] hb using dv by simp
  qed
  then show "uintToSmallFloatRoundUp (smallFloatToUint c) = c"
    "uintToSmallFloatRoundDown (smallFloatToUint c) = c"
    by (simp_all add: word_unat_eq_iff)
qed

subsection \<open>Quantization bounds and monotonicity\<close>

text \<open>
  C4, as the code has it. Rounding down never exceeds the size and both roundings are
  monotonic, for every 32-bit size. Rounding up stays at or above the size as long as the
  class it yields has a 32-bit size, which is the case up to \<open>0xF0000000\<close>; above that
  the class is 240, whose size \<open>2 ^ 32\<close> wraps to 0.
\<close>

lemma ru_top_class: "uintToSmallFloatRoundUp 0xF0000000 = 239"
  by code_simp

theorem quantization_bounds:
  "(n \<le> 0xF0000000 \<longrightarrow> n \<le> smallFloatToUint (uintToSmallFloatRoundUp n)) \<and>
   smallFloatToUint (uintToSmallFloatRoundDown n) \<le> n \<and>
   (a \<le> b \<longrightarrow>
      uintToSmallFloatRoundUp a \<le> uintToSmallFloatRoundUp b \<and>
      uintToSmallFloatRoundDown a \<le> uintToSmallFloatRoundDown b)"
proof (intro conjI impI)
  assume "n \<le> 0xF0000000"
  from ru_mono[OF this] have "uintToSmallFloatRoundUp n \<le> 239"
    by (simp only: ru_top_class)
  then have "unat (uintToSmallFloatRoundUp n) < 240"
    by (simp add: word_le_nat_alt)
  from unat_smallFloatToUint[OF this] classSize_ru[of n]
  show "n \<le> smallFloatToUint (uintToSmallFloatRoundUp n)"
    by (simp add: word_le_nat_alt)
next
  from unat_smallFloatToUint[OF rd_bound, of n] classSize_rd[of n]
  show "smallFloatToUint (uintToSmallFloatRoundDown n) \<le> n"
    by (simp add: word_le_nat_alt)
next
  assume "a \<le> b"
  then show "uintToSmallFloatRoundUp a \<le> uintToSmallFloatRoundUp b"
    by (rule ru_mono)
next
  assume "a \<le> b"
  then show "uintToSmallFloatRoundDown a \<le> uintToSmallFloatRoundDown b"
    by (rule rd_mono)
qed

theorem quantization_bounds_witness:
  "(1000::uint32) \<le> 0xF0000000 \<and> (1000::uint32) \<le> 1023 \<and>
   1000 \<le> smallFloatToUint (uintToSmallFloatRoundUp 1000) \<and>
   smallFloatToUint (uintToSmallFloatRoundDown 1000) \<le> 1000 \<and>
   uintToSmallFloatRoundUp 1000 \<le> uintToSmallFloatRoundUp 1023 \<and>
   uintToSmallFloatRoundDown 1000 \<le> uintToSmallFloatRoundDown 1023"
  using quantization_bounds[of 1000 1000 1023] by simp

theorem quantization_round_up_wraps:
  "\<not> (0xF0000001 \<le> smallFloatToUint (uintToSmallFloatRoundUp 0xF0000001))"
  by code_simp

subsection \<open>Round trip on the class representatives\<close>

text \<open>
  C10, as the code has it: both roundings give back the class of the representative size of
  every class below 240. The classes from 240 on have no 32-bit representative, and the
  round trip fails on them.
\<close>

theorem codec_round_trip:
  "c < 240 \<Longrightarrow>
     uintToSmallFloatRoundUp (smallFloatToUint c) = c \<and>
     uintToSmallFloatRoundDown (smallFloatToUint c) = c"
  using roundtrip[of c] by (simp add: word_less_nat_alt)

theorem codec_round_trip_witness:
  "(36::uint32) < 240 \<and> smallFloatToUint 36 = 96 \<and>
   uintToSmallFloatRoundUp (smallFloatToUint 36) = 36 \<and>
   uintToSmallFloatRoundDown (smallFloatToUint 36) = 36"
  using codec_round_trip[of 36] by (simp add: smallFloatToUint_def)

theorem codec_round_trip_fails_at_240:
  "(240::uint32) < 256 \<and> uintToSmallFloatRoundUp (smallFloatToUint 240) \<noteq> 240 \<and>
   uintToSmallFloatRoundDown (smallFloatToUint 240) \<noteq> 240"
  by code_simp

section \<open>Calls that leave the allocator alone\<close>

text \<open>
  C9: \<^verbatim>\<open>free\<close> of the sentinel handle \<open>NO_SPACE\<close>, and \<^verbatim>\<open>free\<close> of any handle on an
  allocator whose arena is still the null pointer, return at once with the state as it
  was; neither is an undefined operation of the model.
\<close>

theorem free_sentinel_or_unallocated:
  "free NO_SPACE s = Some s \<and> (m_nodes s = None \<longrightarrow> free nodeIndex s = Some s)"
  by (simp add: free_def)

theorem free_sentinel_or_unallocated_witness:
  "m_nodes (OffsetAllocator_new 4 0 (\<lambda>_. 0) (\<lambda>_. 0)) = None \<and>
   free NO_SPACE (OffsetAllocator_new 4 0 (\<lambda>_. 0) (\<lambda>_. 0)) =
     Some (OffsetAllocator_new 4 0 (\<lambda>_. 0) (\<lambda>_. 0)) \<and>
   free 3 (OffsetAllocator_new 4 0 (\<lambda>_. 0) (\<lambda>_. 0)) =
     Some (OffsetAllocator_new 4 0 (\<lambda>_. 0) (\<lambda>_. 0))"
  using free_sentinel_or_unallocated[of "OffsetAllocator_new 4 0 (\<lambda>_. 0) (\<lambda>_. 0)" 3]
  by (simp add: OffsetAllocator_new_def)

section \<open>The concrete scenario\<close>

lemma scenario_eval:
  "scenario top0 bins0 dir0 =
     Some (0, 100, 100, 974, Alloc_default, Alloc_default, \<lparr>offset = 150, metadata = 2\<rparr>)"
  by code_simp

text \<open>
  C7, as the code has it. After \<^verbatim>\<open>reset(1024)\<close> with 128 handles, \<^verbatim>\<open>allocate(100)\<close> is at
  offset 0 with size 100, \<^verbatim>\<open>allocate(50)\<close> is at offset 100, and after the first is freed
  the report has 974 free. The free space is the two regions \<open>[0, 100)\<close> and
  \<open>[150, 1024)\<close>, so the trailing one has 874: \<^verbatim>\<open>allocate(974)\<close> and \<^verbatim>\<open>allocate(900)\<close>
  both return the sentinel, and \<^verbatim>\<open>allocate(800)\<close> takes the trailing region at offset 150.
\<close>

theorem concrete_scenario:
  "scenario top0 bins0 dir0 =
     Some (0, 100, 100, 974, Alloc_default, Alloc_default, \<lparr>offset = 150, metadata = 2\<rparr>)"
  by (rule scenario_eval)

theorem concrete_scenario_900_fails:
  "\<not> (\<exists>o1 z1 o2 f a3 a4 a5.
        scenario 0 (\<lambda>_. 0) (\<lambda>_. 0) = Some (o1, z1, o2, f, a3, a4, a5) \<and> a4 \<noteq> Alloc_default)"
  by (simp add: scenario_eval)

end
